theory Spec2Isabelle
  imports Main "HOL-Library.Multiset"
begin

section \<open>Strings\<close>

text \<open>
  A JavaScript string is a sequence of UTF-16 code units. The Hangul text of
  \<^verbatim>\<open>src/index.jsx\<close> is written below by its code units; \<open>ascii\<close> turns an ASCII literal
  into its code units.
\<close>

type_synonym jsstring = "nat list"

definition ascii :: "string \<Rightarrow> jsstring" where
  "ascii cs = map of_char cs"

text \<open>
  \<^verbatim>\<open>String.prototype.trim\<close> removes the WhiteSpace and LineTerminator code points of
  ECMAScript from both ends: TAB, LF, VT, FF, CR, SP, NBSP, U+1680, U+2000 to U+200A,
  U+2028, U+2029, U+202F, U+205F, U+3000 and U+FEFF.
\<close>

definition isWhiteSpace :: "nat \<Rightarrow> bool" where
  "isWhiteSpace c =
     (c = 9 \<or> c = 10 \<or> c = 11 \<or> c = 12 \<or> c = 13 \<or> c = 32 \<or> c = 160 \<or> c = 5760 \<or>
      (8192 \<le> c \<and> c \<le> 8202) \<or> c = 8232 \<or> c = 8233 \<or> c = 8239 \<or> c = 8287 \<or>
      c = 12288 \<or> c = 65279)"

definition trim :: "jsstring \<Rightarrow> jsstring" where
  "trim s = rev (dropWhile isWhiteSpace (rev (dropWhile isWhiteSpace s)))"

text \<open>
  \<^verbatim>\<open>String.prototype.toLowerCase\<close> is the host's Unicode lower-case mapping, with its
  tables of cased code points, its special casings and its surrogate pairs. It is not the
  repository's code, so the handler below takes it as a parameter, \<open>toLowerCase\<close>, and
  every theorem about the handler holds for every such function.

  What ECMAScript fixes of it on ASCII text is written out: on a string of ASCII code
  units the mapping turns \<open>A\<close> to \<open>Z\<close> into \<open>a\<close> to \<open>z\<close> and leaves the rest. \<open>lowersAscii lc\<close>
  says that \<open>lc\<close> does so; \<open>asciiLowerCase\<close> is the mapping on ASCII text itself, which
  serves where a concrete host is needed.
\<close>

definition asciiLowerUnit :: "nat \<Rightarrow> nat" where
  "asciiLowerUnit c = (if 65 \<le> c \<and> c \<le> 90 then c + 32 else c)"

definition asciiLowerCase :: "jsstring \<Rightarrow> jsstring" where
  "asciiLowerCase s = map asciiLowerUnit s"

definition isAscii :: "jsstring \<Rightarrow> bool" where
  "isAscii s = list_all (\<lambda>c. c < 128) s"

definition lowersAscii :: "(jsstring \<Rightarrow> jsstring) \<Rightarrow> bool" where
  "lowersAscii lc = (\<forall>s. isAscii s \<longrightarrow> lc s = asciiLowerCase s)"

text \<open>Number to string, for the points shown in the feedback text (a template literal).\<close>

fun digits :: "nat \<Rightarrow> jsstring" where
  "digits n = (if n < 10 then [48 + n] else digits (n div 10) @ [48 + n mod 10])"

declare digits.simps [simp del]

definition numberToString :: "int \<Rightarrow> jsstring" where
  "numberToString i = (if i < 0 then 45 # digits (nat (- i)) else digits (nat i))"

section \<open>Constants and the question bank\<close>

record question =
  chosung :: jsstring
  category :: jsstring
  answer :: jsstring
  difficulty :: nat

definition mkQuestion :: "jsstring \<Rightarrow> jsstring \<Rightarrow> jsstring \<Rightarrow> nat \<Rightarrow> question" where
  "mkQuestion c g a d = \<lparr>chosung = c, category = g, answer = a, difficulty = d\<rparr>"

definition CHOSUNG_QUESTIONS :: "question list" where
  "CHOSUNG_QUESTIONS =
    [mkQuestion [12615, 12596, 12622, 12613, 12615] [51064, 49324, 47568]
       [50504, 45397, 54616, 49464, 50836] 1,
     mkQuestion [12593, 12616] [44036, 49885] [44284, 51088] 2,
     mkQuestion [12609, 12593] [46041, 47932] [47805, 44396] 2,
     mkQuestion [12613, 12609, 12620, 12621] [44592, 49696] [49828, 47560, 53944, 54256] 3,
     mkQuestion [12616, 12616, 12599] [46020, 49884] [51228, 51452, 46020] 3,
     mkQuestion [12613, 12610] [44284, 51068] [49688, 48149] 1,
     mkQuestion [12596, 12593] [51648, 47532] [45224, 44537] 2,
     mkQuestion [12615, 12621, 12620] [44148, 52629] [50500, 54028, 53944] 1,
     mkQuestion [12621, 12615, 12596] [50501, 44592] [54588, 50500, 45432] 3,
     mkQuestion [12599, 12616, 12617, 12593] [50836, 47532] [46108, 51109, 52236, 44060] 2]"

definition TIMER_START :: int where
  "TIMER_START = 10"

definition MAX_QUESTIONS :: nat where
  "MAX_QUESTIONS = 5"

section \<open>Component state\<close>

text \<open>
  The state of the \<open>App\<close> component: one field for each \<^verbatim>\<open>useState\<close> cell the handlers
  read or write. \<open>db\<close> is whether the Firestore handle is non-null; \<open>userId\<close> is \<open>None\<close> for
  \<^verbatim>\<open>null\<close>. The feedback object \<^verbatim>\<open>{ text, type }\<close> keeps its text as a string; its type is
  one of \<^verbatim>\<open>''\<close>, \<^verbatim>\<open>'correct'\<close>, \<^verbatim>\<open>'wrong'\<close>.
\<close>

datatype phase = Start | Playing | Result | Ranking

datatype fbtype = NoType | Correct | Wrong

record feedback =
  fb_text :: jsstring
  fb_type :: fbtype

definition noFeedback :: feedback where
  "noFeedback = \<lparr>fb_text = [], fb_type = NoType\<rparr>"

text \<open>
  \<^verbatim>\<open>handleNextQuestion\<close> and \<^verbatim>\<open>handleGameEnd\<close> are \<^verbatim>\<open>useCallback\<close> closures: each reads the
  values of its dependency list as they were in the render that created it. A timeout
  callback calls the \<^verbatim>\<open>handleNextQuestion\<close> of the render in which the timeout was set,
  so it carries that render's \<open>currentQuestionIndex\<close>, \<open>score\<close>, \<open>highScore\<close>, \<open>db\<close> and
  \<open>userId\<close>.
\<close>

record closure =
  c_index :: nat
  c_score :: int
  c_highScore :: int
  c_db :: bool
  c_userId :: "jsstring option"

text \<open>
  The two callbacks handed to \<^verbatim>\<open>setTimeout\<close>: the one of the correct branch (500 ms) and
  the one shared in shape by the wrong branch and the time-out handler (2000 ms).
\<close>

datatype callback = AfterCorrect closure | AfterWrong closure

record profile =
  p_userId :: jsstring
  p_nickname :: jsstring
  p_highScore :: int

record entry =
  e_rank :: nat
  e_userId :: jsstring
  e_nickname :: jsstring
  e_highScore :: int

record app =
  db :: bool
  userId :: "jsstring option"
  isAuthReady :: bool
  phase :: phase
  score :: int
  highScore :: int
  timeLeft :: int
  currentQuestionIndex :: nat
  currentQuestion :: "question list option"
  answerInput :: jsstring
  feedback :: feedback
  isNewHighScore :: bool
  showAnswer :: bool
  correctAnswerText :: jsstring
  lastWrongInput :: jsstring
  rankingData :: "entry list"
  myRank :: "(nat \<times> int) option"
  timeouts :: "(nat \<times> callback) list"
  updates :: "(jsstring \<times> int) list"

text \<open>
  \<open>timeouts\<close> holds the pending \<^verbatim>\<open>setTimeout\<close> calls (delay in ms, callback), oldest
  first; \<open>updates\<close> logs the \<^verbatim>\<open>updateDoc\<close> calls issued (document id, new high score).
\<close>

definition closure_of :: "app \<Rightarrow> closure" where
  "closure_of s =
     \<lparr>c_index = currentQuestionIndex s, c_score = score s, c_highScore = highScore s,
      c_db = db s, c_userId = userId s\<rparr>"

datatype error = TypeError

section \<open>Handlers\<close>

text \<open>\<^verbatim>\<open>handleGameEnd\<close> (lines 184 to 204); \<^verbatim>\<open>db && userId\<close> is false for an empty id too.\<close>

definition handleGameEnd :: "closure \<Rightarrow> app \<Rightarrow> app" where
  "handleGameEnd c s =
     (let s1 = s\<lparr>phase := Result\<rparr> in
      if c_score c > c_highScore c then
        (let s2 = s1\<lparr>highScore := c_score c, isNewHighScore := True\<rparr> in
         case c_userId c of
           None \<Rightarrow> s2
         | Some uid \<Rightarrow>
             if c_db c \<and> uid \<noteq> [] then s2\<lparr>updates := updates s2 @ [(uid, c_score c)]\<rparr>
             else s2)
      else s1)"

text \<open>\<^verbatim>\<open>handleNextQuestion\<close> (lines 208 to 217).\<close>

definition handleNextQuestion :: "closure \<Rightarrow> app \<Rightarrow> app" where
  "handleNextQuestion c s =
     (let nextIndex = c_index c + 1 in
      if nextIndex < MAX_QUESTIONS then
        s\<lparr>currentQuestionIndex := nextIndex, timeLeft := TIMER_START, answerInput := []\<rparr>
      else handleGameEnd c s)"

definition TIMEOUT_MARK :: jsstring where
  "TIMEOUT_MARK = [49884, 44036, 32, 52488, 44284]"

definition TIMEOUT_TEXT :: jsstring where
  "TIMEOUT_TEXT = [49884, 44036, 32, 52488, 44284, 33]"

definition WRONG_TEXT :: jsstring where
  "WRONG_TEXT = [50724, 45813, 33]"

definition correctText :: "int \<Rightarrow> jsstring" where
  "correctText points = [51221, 45813, 33, 32, 40, 43] @ numberToString points @ [51216, 41]"

text \<open>
  \<^verbatim>\<open>handleTimeOut\<close> (lines 221 to 243). Reading \<^verbatim>\<open>qData.answer\<close> when the index is outside
  the round throws a TypeError.
\<close>

definition handleTimeOut :: "app \<Rightarrow> error + app" where
  "handleTimeOut s =
     (case currentQuestion s of
        None \<Rightarrow> Inr s
      | Some qs \<Rightarrow>
          if currentQuestionIndex s < length qs then
            (let qData = qs ! currentQuestionIndex s in
             Inr (s\<lparr>lastWrongInput := TIMEOUT_MARK,
                    correctAnswerText := answer qData,
                    showAnswer := True,
                    feedback := \<lparr>fb_text = TIMEOUT_TEXT, fb_type = Wrong\<rparr>,
                    timeouts := timeouts s @ [(2000, AfterWrong (closure_of s))]\<rparr>))
          else Inl TypeError)"

text \<open>
  \<^verbatim>\<open>handleSubmitAnswer\<close> (lines 284 to 329). The guard
  \<^verbatim>\<open>phase !== 'playing' || !currentQuestion || feedback.text\<close> returns at once: the
  \<open>None\<close> case and the first test below are its three disjuncts. \<open>toLowerCase\<close> is the
  host's function.
\<close>

definition handleSubmitAnswer :: "(jsstring \<Rightarrow> jsstring) \<Rightarrow> app \<Rightarrow> error + app" where
  "handleSubmitAnswer toLowerCase s =
     (case currentQuestion s of
        None \<Rightarrow> Inr s
      | Some qs \<Rightarrow>
          if phase s \<noteq> Playing \<or> fb_text (feedback s) \<noteq> [] then Inr s
          else if currentQuestionIndex s < length qs then
            (let submittedAnswer = toLowerCase (trim (answerInput s));
                 wrongInputForDisplay = trim (answerInput s);
                 qData = qs ! currentQuestionIndex s;
                 correctAnswer = toLowerCase (trim (answer qData));
                 s1 = s\<lparr>answerInput := []\<rparr>
             in if submittedAnswer = correctAnswer then
                  (let bonus = timeLeft s * 1;
                       points = 10 + bonus
                   in Inr (s1\<lparr>score := score s1 + points,
                               feedback := \<lparr>fb_text = correctText points, fb_type = Correct\<rparr>,
                               timeouts := timeouts s1 @ [(500, AfterCorrect (closure_of s))]\<rparr>))
                else
                  Inr (s1\<lparr>lastWrongInput := wrongInputForDisplay,
                          correctAnswerText := answer qData,
                          showAnswer := True,
                          feedback := \<lparr>fb_text = WRONG_TEXT, fb_type = Wrong\<rparr>,
                          timeouts := timeouts s1 @ [(2000, AfterWrong (closure_of s))]\<rparr>))
          else Inl TypeError)"

text \<open>The bodies of the two timeout callbacks (lines 306 to 309, 235 to 241, 321 to 327).\<close>

fun runCallback :: "callback \<Rightarrow> app \<Rightarrow> app" where
  "runCallback (AfterCorrect c) s = handleNextQuestion c (s\<lparr>feedback := noFeedback\<rparr>)"
| "runCallback (AfterWrong c) s =
     handleNextQuestion c
       (s\<lparr>feedback := noFeedback, showAnswer := False, correctAnswerText := [],
          lastWrongInput := []\<rparr>)"

text \<open>
  \<^verbatim>\<open>startGame\<close> (lines 261 to 280). \<open>arraySort rs xs\<close> stands for the host's
  \<^verbatim>\<open>Array.prototype.sort\<close> run on a copy of \<open>xs\<close> with the comparator
  \<^verbatim>\<open>() => Math.random() - 0.5\<close>, as a function of the values \<open>rs\<close> that the successive
  calls of \<^verbatim>\<open>Math.random\<close> return (each \<open>r\<close> stands for the number \<open>r / 2 ^ m\<close>, for the
  \<open>m\<close> random bits the host draws). The sorting algorithm is the host's, not the
  repository's, so it is a parameter.
\<close>

definition startGame :: "(nat list \<Rightarrow> question list \<Rightarrow> question list) \<Rightarrow> nat list \<Rightarrow> app \<Rightarrow> app" where
  "startGame arraySort rs s =
     (if \<not> isAuthReady s then s
      else
        (let shuffledQuestions = arraySort rs CHOSUNG_QUESTIONS;
             gameQuestions = take MAX_QUESTIONS shuffledQuestions
         in s\<lparr>currentQuestion := Some gameQuestions,
              currentQuestionIndex := 0,
              score := 0,
              answerInput := [],
              timeLeft := TIMER_START,
              feedback := noFeedback,
              showAnswer := False,
              correctAnswerText := [],
              lastWrongInput := [],
              phase := Playing,
              isNewHighScore := False\<rparr>))"

section \<open>Events\<close>

text \<open>
  Every handler, timer callback and effect runs as one turn, and the state updates of a
  turn are applied together before the next turn. The timer effect (lines 246 to 258)
  runs after each of them: while the phase is \<open>Playing\<close>, no feedback is shown and
  \<open>timeLeft > 0\<close> it arms the one-second interval, whose tick is \<open>Tick\<close> below; at
  \<open>timeLeft = 0\<close> it calls \<^verbatim>\<open>handleTimeOut\<close>. The interval is thus armed exactly while
  \<open>timerArmed\<close> holds, and the \<^verbatim>\<open>clearInterval\<close> calls of the handlers need no state of
  their own. A TypeError thrown by a handler or inside the effect is the \<open>Inl\<close> result.
\<close>

definition timerArmed :: "app \<Rightarrow> bool" where
  "timerArmed s = (phase s = Playing \<and> timeLeft s > 0 \<and> fb_text (feedback s) = [])"

definition timerEffect :: "app \<Rightarrow> error + app" where
  "timerEffect s =
     (if phase s = Playing \<and> timeLeft s > 0 \<and> fb_text (feedback s) = [] then Inr s
      else if phase s = Playing \<and> timeLeft s = 0 \<and> fb_text (feedback s) = [] then handleTimeOut s
      else Inr s)"

text \<open>
  The events of a session: typing into the input (enabled only while no feedback is
  shown), submitting the form, a tick of the interval, and the expiry of the oldest
  pending timeout.
\<close>

datatype event = Change jsstring | Submit | Tick | Elapse

fun handle :: "(jsstring \<Rightarrow> jsstring) \<Rightarrow> event \<Rightarrow> app \<Rightarrow> error + app" where
  "handle toLowerCase (Change v) s =
     (if phase s = Playing \<and> fb_text (feedback s) = [] then Inr (s\<lparr>answerInput := v\<rparr>)
      else Inr s)"
| "handle toLowerCase Submit s = handleSubmitAnswer toLowerCase s"
| "handle toLowerCase Tick s =
     (if timerArmed s then Inr (s\<lparr>timeLeft := timeLeft s - 1\<rparr>) else Inr s)"
| "handle toLowerCase Elapse s =
     (case timeouts s of
        [] \<Rightarrow> Inr s
      | (delay, cb) # rest \<Rightarrow> Inr (runCallback cb (s\<lparr>timeouts := rest\<rparr>)))"

definition step :: "(jsstring \<Rightarrow> jsstring) \<Rightarrow> event \<Rightarrow> app \<Rightarrow> error + app" where
  "step toLowerCase e s =
     (case handle toLowerCase e s of Inl err \<Rightarrow> Inl err | Inr s' \<Rightarrow> timerEffect s')"

fun run :: "(jsstring \<Rightarrow> jsstring) \<Rightarrow> event list \<Rightarrow> app \<Rightarrow> error + app" where
  "run toLowerCase [] s = Inr s"
| "run toLowerCase (e # es) s =
     (case step toLowerCase e s of Inl err \<Rightarrow> Inl err | Inr s' \<Rightarrow> run toLowerCase es s')"

text \<open>
  \<open>advance\<close> is \<^verbatim>\<open>handleNextQuestion\<close> as created by the render of the state it runs in.
\<close>

definition advance :: "app \<Rightarrow> app" where
  "advance s = handleNextQuestion (closure_of s) s"

section \<open>Leaderboard\<close>

text \<open>
  The \<^verbatim>\<open>onSnapshot\<close> callback (lines 143 to 175). The comparator
  \<^verbatim>\<open>(a, b) => b.highScore - a.highScore\<close> is consistent, and \<^verbatim>\<open>Array.prototype.sort\<close> is
  stable, so the sorted array is the stable ordering by that comparator, computed here
  by insertion. \<^verbatim>\<open>setMyRank\<close> is called for every entry of the player's; the last call
  stands. The variable \<^verbatim>\<open>myIndex\<close> is assigned and never read, so it has no counterpart
  here. The listener exists only once \<open>db\<close>, \<open>userId\<close> and \<open>isAuthReady\<close> are set.
\<close>

definition byHighScoreDesc :: "entry \<Rightarrow> entry \<Rightarrow> int" where
  "byHighScoreDesc a b = e_highScore b - e_highScore a"

fun insertBy :: "('a \<Rightarrow> 'a \<Rightarrow> int) \<Rightarrow> 'a \<Rightarrow> 'a list \<Rightarrow> 'a list" where
  "insertBy cmp x [] = [x]"
| "insertBy cmp x (y # ys) = (if cmp x y \<le> 0 then x # y # ys else y # insertBy cmp x ys)"

definition stableSort :: "('a \<Rightarrow> 'a \<Rightarrow> int) \<Rightarrow> 'a list \<Rightarrow> 'a list" where
  "stableSort cmp xs = foldr (insertBy cmp) xs []"

definition pushEntry :: "nat \<times> profile \<Rightarrow> entry" where
  "pushEntry = (\<lambda>(index, d).
     \<lparr>e_rank = index + 1, e_userId = p_userId d, e_nickname = p_nickname d,
      e_highScore = p_highScore d\<rparr>)"

definition reRank :: "nat \<times> entry \<Rightarrow> entry" where
  "reRank = (\<lambda>(index, e). e\<lparr>e_rank := index + 1\<rparr>)"

definition ranking :: "profile list \<Rightarrow> entry list" where
  "ranking docs =
     (let currentRankings = map pushEntry (enumerate 0 docs);
          sorted = stableSort byHighScoreDesc currentRankings
      in map reRank (enumerate 0 sorted))"

definition onSnapshot :: "profile list \<Rightarrow> app \<Rightarrow> app" where
  "onSnapshot docs s =
     (case userId s of
        None \<Rightarrow> s
      | Some uid \<Rightarrow>
          if \<not> db s \<or> uid = [] \<or> \<not> isAuthReady s then s
          else
            (let finalRankings = ranking docs;
                 mine = filter (\<lambda>e. e_userId e = uid) finalRankings;
                 s1 = (if mine = [] then s
                       else s\<lparr>myRank := Some (e_rank (last mine), e_highScore (last mine))\<rparr>)
             in s1\<lparr>rankingData := finalRankings\<rparr>))"

section \<open>Sample states\<close>

text \<open>
  The component as first rendered (the initial values of lines 44 to 69), the same once
  Firebase and the anonymous sign-in are ready, and a game started from there with the
  bank left in its order. Where an instance needs a host, it takes \<open>asciiLowerCase\<close>: the
  instances hold ASCII and Hangul text only, on which every host's \<^verbatim>\<open>toLowerCase\<close> is
  that mapping, Hangul having no case.
\<close>

definition initialApp :: app where
  "initialApp =
     \<lparr>db = False, userId = None, isAuthReady = False, phase = Start, score = 0, highScore = 0,
      timeLeft = TIMER_START, currentQuestionIndex = 0, currentQuestion = None,
      answerInput = [], feedback = noFeedback, isNewHighScore = False, showAnswer = False,
      correctAnswerText = [], lastWrongInput = [], rankingData = [], myRank = None,
      timeouts = [], updates = []\<rparr>"

definition readyApp :: app where
  "readyApp = initialApp\<lparr>db := True, userId := Some (ascii ''uid1''), isAuthReady := True\<rparr>"

definition firstGame :: app where
  "firstGame = startGame (\<lambda>rs xs. xs) [] readyApp"

definition answerGame :: app where
  "answerGame =
     firstGame\<lparr>currentQuestion := Some (replicate 5 (mkQuestion [] [] (ascii ''answer'') 1)),
               answerInput := ascii ''  ANSWER  ''\<rparr>"

text \<open>
  The invariant of a running session: the countdown is not negative, the index is below
  \<open>MAX_QUESTIONS\<close>, and a loaded round has at least \<open>MAX_QUESTIONS\<close> questions.
\<close>

definition wellFormed :: "app \<Rightarrow> bool" where
  "wellFormed s =
     (0 \<le> timeLeft s \<and> currentQuestionIndex s < MAX_QUESTIONS \<and>
      (case currentQuestion s of None \<Rightarrow> True | Some qs \<Rightarrow> MAX_QUESTIONS \<le> length qs))"

definition lastQuestion :: app where
  "lastQuestion = firstGame\<lparr>currentQuestionIndex := 4\<rparr>"


text \<open>A whole session in which every question is answered correctly at once.\<close>

definition allRight :: "event list" where
  "allRight =
     [Change [50504, 45397, 54616, 49464, 50836], Submit, Elapse,
      Change [44284, 51088], Submit, Elapse,
      Change [47805, 44396], Submit, Elapse,
      Change [49828, 47560, 53944, 54256], Submit, Elapse,
      Change [51228, 51452, 46020], Submit, Elapse]"

text \<open>Two documents of the ranking collection: the player of \<open>readyApp\<close> and another one.\<close>

definition player :: profile where
  "player = \<lparr>p_userId = ascii ''uid1'', p_nickname = ascii ''me'', p_highScore = 50\<rparr>"

definition rival :: profile where
  "rival = \<lparr>p_userId = ascii ''uid2'', p_nickname = ascii ''you'', p_highScore = 70\<rparr>"

abbreviation descending :: "entry \<Rightarrow> entry \<Rightarrow> bool" where
  "descending \<equiv> (\<lambda>a b. e_highScore b \<le> e_highScore a)"

section \<open>How likely an order of the bank is\<close>

text \<open>
  For the shuffle, a call of \<^verbatim>\<open>Math.random\<close> is taken to return one of \<open>2 ^ m\<close> equally
  likely values, the calls independent, and the host's sort to draw at most \<open>k\<close> of
  them. \<open>outcomes m k\<close> lists the equally likely sequences of \<open>k\<close> draws, and
  \<open>chances arraySort m k p\<close> counts those on which \<open>shuffledQuestions\<close> of \<open>startGame\<close> comes
  out as \<open>p\<close>: the probability of \<open>p\<close> is that count over the number of outcomes. Were
  the ten questions shuffled uniformly, each order would have one part in \<open>10!\<close> of them.
\<close>

definition outcomes :: "nat \<Rightarrow> nat \<Rightarrow> nat list list" where
  "outcomes m k = List.n_lists k [0..<2 ^ m]"

definition chances ::
  "(nat list \<Rightarrow> question list \<Rightarrow> question list) \<Rightarrow> nat \<Rightarrow> nat \<Rightarrow> question list \<Rightarrow> nat" where
  "chances arraySort m k p =
     length (filter (\<lambda>rs. arraySort rs CHOSUNG_QUESTIONS = p) (outcomes m k))"

text \<open>
  ECMAScript leaves the sorting algorithm to the host. Insertion sort is one that hosts
  use on short arrays: each element after the first is compared with the elements to its
  left, nearest first, and moves past them while \<^verbatim>\<open>comparefn(tmp, element)\<close> is positive.
  The comparator of \<open>startGame\<close> ignores its arguments: each call is one draw \<open>r\<close>, standing
  for \<open>r / 2 ^ m\<close>, and \<open>randomOrder m r\<close> is \<^verbatim>\<open>Math.random() - 0.5\<close> scaled by \<open>2 ^ (m + 1)\<close>,
  which has the same sign. \<open>sink\<close> keeps the sorted part with its last element first. An
  element stays where it is once the draws have run out; ten elements need at most 45.
\<close>

definition randomOrder :: "nat \<Rightarrow> nat \<Rightarrow> int" where
  "randomOrder m r = int (2 * r) - int (2 ^ m)"

fun sink :: "int list \<Rightarrow> 'a \<Rightarrow> 'a list \<Rightarrow> 'a list \<times> int list" where
  "sink orders element [] = ([element], orders)"
| "sink [] element (tmp # left) = (element # tmp # left, [])"
| "sink (order # orders) element (tmp # left) =
     (if order > 0 then
        (case sink orders element left of (left', orders') \<Rightarrow> (tmp # left', orders'))
      else (element # tmp # left, orders))"

fun insertionSort :: "int list \<Rightarrow> 'a list \<Rightarrow> 'a list \<Rightarrow> 'a list" where
  "insertionSort orders placed [] = rev placed"
| "insertionSort orders placed (element # rest) =
     (case sink orders element placed of
        (placed', orders') \<Rightarrow> insertionSort orders' placed' rest)"

definition insertionHost :: "nat \<Rightarrow> nat list \<Rightarrow> 'a list \<Rightarrow> 'a list" where
  "insertionHost m rs xs = insertionSort (map (randomOrder m) rs) [] xs"

text \<open>
  The same count for the round that \<open>startGame\<close> stores, from the signed-in state: the
  outcomes on which \<open>currentQuestion\<close> becomes \<open>qs\<close>. A uniform shuffle of ten questions
  gives each sequence of five different questions one part in \<open>10 * 9 * 8 * 7 * 6 = 30240\<close>.
\<close>

definition roundChances ::
  "(nat list \<Rightarrow> question list \<Rightarrow> question list) \<Rightarrow> nat \<Rightarrow> nat \<Rightarrow> question list \<Rightarrow> nat" where
  "roundChances arraySort m k qs =
     length (filter (\<lambda>rs. currentQuestion (startGame arraySort rs readyApp) = Some qs)
       (outcomes m k))"

section \<open>Basic facts\<close>

lemma firstGame_simps:
  "phase firstGame = Playing" "fb_text (feedback firstGame) = []"
  "currentQuestion firstGame = Some (take 5 CHOSUNG_QUESTIONS)"
  "currentQuestionIndex firstGame = 0" "score firstGame = 0" "timeLeft firstGame = 10"
  "highScore firstGame = 0" "timeouts firstGame = []" "updates firstGame = []"
  "db firstGame = True" "userId firstGame = Some (ascii ''uid1'')"
  "isNewHighScore firstGame = False" "answerInput firstGame = []"
  by (simp_all add: firstGame_def startGame_def readyApp_def initialApp_def noFeedback_def
      MAX_QUESTIONS_def TIMER_START_def Let_def)



lemma normalise_example:
  "asciiLowerCase (trim (ascii ''  ANSWER  '')) = ascii ''answer''"
  "asciiLowerCase (trim (ascii ''answer'')) = ascii ''answer''"
  "asciiLowerCase (trim (ascii ''answex'')) = ascii ''answex''"
  by (simp_all add: asciiLowerCase_def trim_def ascii_def isWhiteSpace_def asciiLowerUnit_def)

lemma handleSubmitAnswer_score:
  "handleSubmitAnswer lc s = Inr s' \<Longrightarrow> 0 \<le> timeLeft s \<Longrightarrow> score s \<le> score s'"
  by (auto simp: handleSubmitAnswer_def Let_def split: option.splits if_splits)

lemma handleSubmitAnswer_frame:
  "handleSubmitAnswer lc s = Inr s' \<Longrightarrow>
     timeLeft s' = timeLeft s \<and> currentQuestionIndex s' = currentQuestionIndex s \<and>
     currentQuestion s' = currentQuestion s \<and> phase s' = phase s"
  by (auto simp: handleSubmitAnswer_def Let_def split: option.splits if_splits)

lemma handleTimeOut_frame:
  "handleTimeOut s = Inr s' \<Longrightarrow>
     timeLeft s' = timeLeft s \<and> currentQuestionIndex s' = currentQuestionIndex s \<and>
     currentQuestion s' = currentQuestion s \<and> phase s' = phase s \<and> score s' = score s"
  by (auto simp: handleTimeOut_def Let_def split: option.splits if_splits)

lemma handleGameEnd_frame:
  "timeLeft (handleGameEnd c s) = timeLeft s \<and>
   currentQuestionIndex (handleGameEnd c s) = currentQuestionIndex s \<and>
   currentQuestion (handleGameEnd c s) = currentQuestion s \<and>
   score (handleGameEnd c s) = score s \<and>
   phase (handleGameEnd c s) = Result"
  by (simp add: handleGameEnd_def Let_def split: option.splits)

lemma handleNextQuestion_frame:
  "score (handleNextQuestion c s) = score s \<and>
   currentQuestion (handleNextQuestion c s) = currentQuestion s \<and>
   (0 \<le> timeLeft s \<longrightarrow> 0 \<le> timeLeft (handleNextQuestion c s)) \<and>
   (currentQuestionIndex s < MAX_QUESTIONS \<longrightarrow>
      currentQuestionIndex (handleNextQuestion c s) < MAX_QUESTIONS)"
  by (simp add: handleNextQuestion_def handleGameEnd_frame Let_def TIMER_START_def)

lemma runCallback_frame:
  "score (runCallback cb s) = score s \<and>
   currentQuestion (runCallback cb s) = currentQuestion s \<and>
   (0 \<le> timeLeft s \<longrightarrow> 0 \<le> timeLeft (runCallback cb s)) \<and>
   (currentQuestionIndex s < MAX_QUESTIONS \<longrightarrow>
      currentQuestionIndex (runCallback cb s) < MAX_QUESTIONS)"
  by (cases cb) (simp_all add: handleNextQuestion_frame)

subsection \<open>The session invariant\<close>

lemma handleSubmitAnswer_total:
  "wellFormed s \<Longrightarrow> \<exists>s'. handleSubmitAnswer lc s = Inr s'"
  by (auto simp: handleSubmitAnswer_def wellFormed_def Let_def split: option.splits)

lemma handleTimeOut_total:
  "wellFormed s \<Longrightarrow> \<exists>s'. handleTimeOut s = Inr s'"
  by (auto simp: handleTimeOut_def wellFormed_def Let_def split: option.splits)

lemma handle_wellFormed:
  assumes "wellFormed s"
  shows "\<exists>s'. handle lc e s = Inr s' \<and> wellFormed s' \<and> score s \<le> score s'"
proof (cases e)
  case (Change v)
  with assms show ?thesis by (simp add: wellFormed_def)
next
  case Submit
  from assms obtain s' where s': "handleSubmitAnswer lc s = Inr s'"
    using handleSubmitAnswer_total by blast
  with assms have "wellFormed s'" "score s \<le> score s'"
    using handleSubmitAnswer_frame [OF s'] handleSubmitAnswer_score [OF s']
    by (simp_all add: wellFormed_def)
  with s' Submit show ?thesis by simp
next
  case Tick
  with assms show ?thesis by (simp add: wellFormed_def timerArmed_def)
next
  case Elapse
  show ?thesis
  proof (cases "timeouts s")
    case Nil
    with assms Elapse show ?thesis by simp
  next
    case (Cons p rest)
    obtain d cb where p: "p = (d, cb)" by (cases p)
    let ?t = "s\<lparr>timeouts := rest\<rparr>"
    have "wellFormed (runCallback cb ?t)" "score s \<le> score (runCallback cb ?t)"
      using assms runCallback_frame [of cb ?t] by (simp_all add: wellFormed_def)
    with Cons p Elapse show ?thesis by simp
  qed
qed

lemma timerEffect_wellFormed:
  assumes "wellFormed s"
  shows "\<exists>s'. timerEffect s = Inr s' \<and> wellFormed s' \<and> score s' = score s"
proof -
  from assms obtain s' where s': "handleTimeOut s = Inr s'"
    using handleTimeOut_total by blast
  with assms have "wellFormed s'" "score s' = score s"
    using handleTimeOut_frame [OF s'] by (simp_all add: wellFormed_def)
  with s' assms show ?thesis by (simp add: timerEffect_def)
qed

lemma step_wellFormed:
  assumes "wellFormed s"
  shows "\<exists>s'. step lc e s = Inr s' \<and> wellFormed s' \<and> score s \<le> score s'"
proof -
  from handle_wellFormed [OF assms] obtain s1
    where s1: "handle lc e s = Inr s1" "wellFormed s1" "score s \<le> score s1" by blast
  from timerEffect_wellFormed [OF s1(2)] obtain s2
    where s2: "timerEffect s1 = Inr s2" "wellFormed s2" "score s2 = score s1" by blast
  with s1 show ?thesis by (simp add: step_def)
qed

lemma run_wellFormed:
  "wellFormed s \<Longrightarrow> \<exists>s'. run lc es s = Inr s' \<and> wellFormed s' \<and> score s \<le> score s'"
proof (induction es arbitrary: s)
  case Nil
  then show ?case by simp
next
  case (Cons e es)
  from step_wellFormed [OF Cons.prems] obtain s1
    where s1: "step lc e s = Inr s1" "wellFormed s1" "score s \<le> score s1" by blast
  from Cons.IH [OF s1(2)] obtain s2
    where "run lc es s1 = Inr s2" "wellFormed s2" "score s1 \<le> score s2" by blast
  with s1 show ?case by simp
qed

lemma run_append:
  "run lc (es1 @ es2) s = (case run lc es1 s of Inl err \<Rightarrow> Inl err | Inr s1 \<Rightarrow> run lc es2 s1)"
  by (induction es1 arbitrary: s) (simp_all split: sum.splits)

text \<open>Every started game satisfies the invariant, whatever order the host's sort leaves.\<close>

lemma startGame_wellFormed:
  "isAuthReady s \<Longrightarrow> MAX_QUESTIONS \<le> length (arraySort rs CHOSUNG_QUESTIONS) \<Longrightarrow>
     wellFormed (startGame arraySort rs s)"
  by (simp add: startGame_def wellFormed_def Let_def TIMER_START_def MAX_QUESTIONS_def)

lemma firstGame_wellFormed: "wellFormed firstGame"
  by (simp add: wellFormed_def firstGame_simps MAX_QUESTIONS_def CHOSUNG_QUESTIONS_def)

text \<open>
  A short session run event by event: a wrong answer, its reveal delay, then the second
  question answered after one tick, for \<open>10 + 9\<close> points.
\<close>

lemma short_session:
  "\<exists>s'. run asciiLowerCase
       [Change (ascii ''x''), Submit, Elapse, Change [44284, 51088], Tick, Submit, Elapse]
     firstGame = Inr s' \<and> score s' = 19 \<and> currentQuestionIndex s' = 2"
  by (simp add: firstGame_def startGame_def readyApp_def initialApp_def noFeedback_def
      MAX_QUESTIONS_def TIMER_START_def Let_def step_def timerEffect_def handleSubmitAnswer_def
      CHOSUNG_QUESTIONS_def mkQuestion_def asciiLowerCase_def trim_def ascii_def isWhiteSpace_def
      asciiLowerUnit_def closure_of_def timerArmed_def handleNextQuestion_def WRONG_TEXT_def
      correctText_def)

subsection \<open>Advancing\<close>

lemma advance_next:
  "currentQuestionIndex t + 1 < MAX_QUESTIONS \<Longrightarrow>
     advance t = t\<lparr>currentQuestionIndex := currentQuestionIndex t + 1, timeLeft := TIMER_START,
                  answerInput := []\<rparr>"
  by (simp add: advance_def handleNextQuestion_def closure_of_def Let_def)

lemma advance_last:
  "\<not> currentQuestionIndex t + 1 < MAX_QUESTIONS \<Longrightarrow>
     advance t = handleGameEnd (closure_of t) t"
  by (simp add: advance_def handleNextQuestion_def closure_of_def Let_def)

lemma advance_before_last:
  "phase s = Playing \<Longrightarrow> currentQuestionIndex s = 0 \<Longrightarrow> k < MAX_QUESTIONS \<Longrightarrow>
     phase ((advance ^^ k) s) = Playing \<and> currentQuestionIndex ((advance ^^ k) s) = k"
proof (induction k)
  case 0
  then show ?case by simp
next
  case (Suc k)
  then have "phase ((advance ^^ k) s) = Playing" "currentQuestionIndex ((advance ^^ k) s) = k"
    by simp_all
  with Suc.prems(3) show ?case
    by (simp add: advance_next)
qed

section \<open>Submitting an answer\<close>

text \<open>
  C1. A correct submission made in the \<open>Playing\<close> phase while no feedback is shown, with
  \<open>timeLeft = t\<close>, is awarded \<open>10 + t\<close> points: the session score grows by exactly that
  amount, and the feedback text shows the same number.
\<close>

theorem points_awarded:
  assumes "phase s = Playing" and "fb_text (feedback s) = []"
    and "currentQuestion s = Some qs" and "currentQuestionIndex s < length qs"
    and "lc (trim (answerInput s)) =
         lc (trim (answer (qs ! currentQuestionIndex s)))"
  shows "\<exists>s'. handleSubmitAnswer lc s = Inr s' \<and> score s' = score s + (10 + timeLeft s) \<and>
           feedback s' = \<lparr>fb_text = correctText (10 + timeLeft s), fb_type = Correct\<rparr>"
  using assms by (simp add: handleSubmitAnswer_def Let_def)

theorem points_awarded_witness:
  "\<exists>s'. handleSubmitAnswer asciiLowerCase
         (firstGame\<lparr>answerInput := [50504, 45397, 54616, 49464, 50836]\<rparr>) = Inr s' \<and>
     score s' = 20 \<and> fb_type (feedback s') = Correct"
  using points_awarded [of "firstGame\<lparr>answerInput := [50504, 45397, 54616, 49464, 50836]\<rparr>"
      "take 5 CHOSUNG_QUESTIONS" asciiLowerCase]
  by (auto simp: firstGame_simps CHOSUNG_QUESTIONS_def mkQuestion_def)

text \<open>
  Whitespace around the input does not count: \<open>trim\<close> drops it at both ends.
\<close>

lemma trim_surrounding:
  assumes "list_all isWhiteSpace pre" and "list_all isWhiteSpace post"
  shows "trim (pre @ raw @ post) = trim raw"
proof -
  have "\<And>x. x \<in> set pre \<Longrightarrow> isWhiteSpace x"
    using assms(1) by (simp add: list_all_iff)
  then have pre: "dropWhile isWhiteSpace (pre @ raw @ post) = dropWhile isWhiteSpace (raw @ post)"
    by (rule dropWhile_append2)
  have "\<And>x. x \<in> set (rev post) \<Longrightarrow> isWhiteSpace x"
    using assms(2) by (simp add: list_all_iff)
  then have post: "dropWhile isWhiteSpace (rev post @ zs) = dropWhile isWhiteSpace zs" for zs
    by (rule dropWhile_append2)
  show ?thesis
  proof (cases "list_all isWhiteSpace raw")
    case True
    then have a: "dropWhile isWhiteSpace raw = []"
      by (simp add: dropWhile_eq_Nil_conv list_all_iff)
    from True assms(2) have b: "dropWhile isWhiteSpace (raw @ post) = []"
      by (auto simp: dropWhile_eq_Nil_conv list_all_iff)
    show ?thesis by (simp only: trim_def pre a b)
  next
    case False
    then obtain x where "x \<in> set raw" and "\<not> isWhiteSpace x"
      by (auto simp: list_all_iff)
    then have "dropWhile isWhiteSpace (raw @ post) = dropWhile isWhiteSpace raw @ post"
      by (rule dropWhile_append1)
    then show ?thesis by (simp add: trim_def pre post)
  qed
qed

text \<open>
  C2. Whatever the host's lower-casing \<open>lc\<close>: an accepted submission is judged correct
  exactly when the raw input and the question's canonical answer, each trimmed and
  lower-cased, are equal, and wrong otherwise; whitespace added around the input does not
  change the judgement; and where the host lower-cases ASCII text as ECMAScript has it
  and both trimmed strings are ASCII, the test is equality up to the case of \<open>A\<close> to \<open>Z\<close>.
  The instances that follow are \<open>"  ANSWER  "\<close>, judged correct against the canonical
  answer \<open>"answer"\<close>, and \<open>"answex"\<close>, judged wrong.
\<close>

theorem judged_by_normalised_equality:
  assumes "phase s = Playing" and "fb_text (feedback s) = []"
    and "currentQuestion s = Some qs" and "currentQuestionIndex s < length qs"
  shows "\<exists>s'. handleSubmitAnswer lc s = Inr s' \<and>
           (fb_type (feedback s') = Correct \<longleftrightarrow>
              lc (trim (answerInput s)) = lc (trim (answer (qs ! currentQuestionIndex s)))) \<and>
           (fb_type (feedback s') = Wrong \<longleftrightarrow>
              lc (trim (answerInput s)) \<noteq> lc (trim (answer (qs ! currentQuestionIndex s)))) \<and>
           (list_all isWhiteSpace pre \<and> list_all isWhiteSpace post \<longrightarrow>
              (\<exists>t'. handleSubmitAnswer lc (s\<lparr>answerInput := pre @ answerInput s @ post\<rparr>) = Inr t' \<and>
                 fb_type (feedback t') = fb_type (feedback s'))) \<and>
           (lowersAscii lc \<and> isAscii (trim (answerInput s)) \<and>
              isAscii (trim (answer (qs ! currentQuestionIndex s))) \<longrightarrow>
              (fb_type (feedback s') = Correct \<longleftrightarrow>
                 asciiLowerCase (trim (answerInput s)) =
                 asciiLowerCase (trim (answer (qs ! currentQuestionIndex s)))))"
proof -
  let ?x = "trim (answerInput s)"
  let ?y = "trim (answer (qs ! currentQuestionIndex s))"
  have "lc ?x = asciiLowerCase ?x" and "lc ?y = asciiLowerCase ?y"
    if "lowersAscii lc" and "isAscii ?x" and "isAscii ?y"
    using that by (simp_all add: lowersAscii_def)
  then have "lowersAscii lc \<and> isAscii ?x \<and> isAscii ?y \<longrightarrow>
      (lc ?x = lc ?y \<longleftrightarrow> asciiLowerCase ?x = asciiLowerCase ?y)"
    by simp
  with assms show ?thesis
    by (auto simp: handleSubmitAnswer_def Let_def trim_surrounding)
qed

theorem judged_by_normalised_equality_witness:
  "lowersAscii asciiLowerCase \<and>
   (\<exists>s'. handleSubmitAnswer asciiLowerCase answerGame = Inr s' \<and>
      fb_type (feedback s') = Correct) \<and>
   (\<exists>s'. handleSubmitAnswer asciiLowerCase (answerGame\<lparr>answerInput := ascii ''answex''\<rparr>) = Inr s' \<and>
      fb_type (feedback s') = Wrong)"
proof -
  let ?qs = "replicate 5 (mkQuestion [] [] (ascii ''answer'') 1)"
  have host: "lowersAscii asciiLowerCase"
    by (simp add: lowersAscii_def)
  have g: "phase answerGame = Playing" "fb_text (feedback answerGame) = []"
    "currentQuestion answerGame = Some ?qs" "currentQuestionIndex answerGame < length ?qs"
    "answerInput answerGame = ascii ''  ANSWER  ''"
    "answer (?qs ! currentQuestionIndex answerGame) = ascii ''answer''"
    by (simp_all add: answerGame_def firstGame_simps mkQuestion_def)
  let ?t = "answerGame\<lparr>answerInput := ascii ''answex''\<rparr>"
  have h: "phase ?t = Playing" "fb_text (feedback ?t) = []"
    "currentQuestion ?t = Some ?qs" "currentQuestionIndex ?t < length ?qs"
    "answerInput ?t = ascii ''answex''"
    "answer (?qs ! currentQuestionIndex ?t) = ascii ''answer''"
    by (simp_all add: answerGame_def firstGame_simps mkQuestion_def)
  have ne: "ascii ''answex'' \<noteq> ascii ''answer''"
    by (simp add: ascii_def)
  from judged_by_normalised_equality [OF g(1-4), of asciiLowerCase]
  have "\<exists>s'. handleSubmitAnswer asciiLowerCase answerGame = Inr s' \<and>
      fb_type (feedback s') = Correct"
    unfolding g(5,6) normalise_example by blast
  moreover from judged_by_normalised_equality [OF h(1-4), of asciiLowerCase]
  have "\<exists>s'. handleSubmitAnswer asciiLowerCase ?t = Inr s' \<and> fb_type (feedback s') = Wrong"
    unfolding h(5,6) normalise_example using ne by blast
  ultimately show ?thesis using host by blast
qed

text \<open>
  C8. While feedback is shown, or outside the \<open>Playing\<close> phase, or with no round loaded,
  a submission changes nothing: the handler returns the state as it was, and so does the
  whole turn.
\<close>

theorem submit_ignored_outside_play:
  assumes "phase s \<noteq> Playing \<or> currentQuestion s = None \<or> fb_text (feedback s) \<noteq> []"
  shows "handleSubmitAnswer lc s = Inr s \<and> step lc Submit s = Inr s"
  using assms
  by (auto simp: handleSubmitAnswer_def step_def timerEffect_def handleTimeOut_def
      split: option.splits)

theorem submit_ignored_outside_play_witness:
  "fb_text (feedback (firstGame\<lparr>feedback := \<lparr>fb_text = WRONG_TEXT, fb_type = Wrong\<rparr>\<rparr>)) \<noteq> [] \<and>
   handleSubmitAnswer asciiLowerCase
       (firstGame\<lparr>feedback := \<lparr>fb_text = WRONG_TEXT, fb_type = Wrong\<rparr>\<rparr>) =
     Inr (firstGame\<lparr>feedback := \<lparr>fb_text = WRONG_TEXT, fb_type = Wrong\<rparr>\<rparr>)"
  using submit_ignored_outside_play
    [of "firstGame\<lparr>feedback := \<lparr>fb_text = WRONG_TEXT, fb_type = Wrong\<rparr>\<rparr>" asciiLowerCase]
  by (simp add: WRONG_TEXT_def)

text \<open>
  C10. An accepted submission clears the input buffer at once, in the match and in the
  no-match branch alike: in the state the handler returns the buffer is empty while the
  feedback is still shown, the index has not moved and the timeout that will advance is
  still pending.
\<close>

theorem input_cleared_on_submission:
  assumes "phase s = Playing" and "fb_text (feedback s) = []"
    and "currentQuestion s = Some qs" and "currentQuestionIndex s < length qs"
  shows "\<exists>s'. handleSubmitAnswer lc s = Inr s' \<and> answerInput s' = [] \<and>
           fb_text (feedback s') \<noteq> [] \<and>
           currentQuestionIndex s' = currentQuestionIndex s \<and>
           (\<exists>d cb. timeouts s' = timeouts s @ [(d, cb)])"
  using assms by (simp add: handleSubmitAnswer_def Let_def correctText_def WRONG_TEXT_def)

theorem input_cleared_on_submission_witness:
  "\<exists>s'. handleSubmitAnswer asciiLowerCase (firstGame\<lparr>answerInput := ascii ''abc''\<rparr>) = Inr s' \<and>
     answerInput s' = [] \<and> fb_text (feedback s') \<noteq> [] \<and> currentQuestionIndex s' = 0"
  using input_cleared_on_submission [of "firstGame\<lparr>answerInput := ascii ''abc''\<rparr>"
      "take 5 CHOSUNG_QUESTIONS" asciiLowerCase]
  by (auto simp: firstGame_simps CHOSUNG_QUESTIONS_def)

section \<open>The score over a session\<close>

text \<open>
  C6. From any state of a running session, every sequence of events (typing, submitting,
  ticks, time-outs, elapsed feedback delays) runs without error and never lowers the
  score: the score after a longer run is at least the score after any prefix of it. A
  time-out leaves the score as it is, and so does a submission that does not match.
\<close>

theorem score_never_decreases:
  assumes "wellFormed s"
  shows "(\<exists>s1 s2. run lc es1 s = Inr s1 \<and> run lc (es1 @ es2) s = Inr s2 \<and>
            score s \<le> score s1 \<and> score s1 \<le> score s2) \<and>
         (\<exists>s'. handleTimeOut s = Inr s' \<and> score s' = score s) \<and>
         ((\<forall>qs. currentQuestion s = Some qs \<longrightarrow>
             lc (trim (answerInput s)) \<noteq>
             lc (trim (answer (qs ! currentQuestionIndex s)))) \<longrightarrow>
          (\<exists>s'. handleSubmitAnswer lc s = Inr s' \<and> score s' = score s))"
proof (intro conjI impI)
  from run_wellFormed [OF assms] obtain s1
    where s1: "run lc es1 s = Inr s1" "wellFormed s1" "score s \<le> score s1" by blast
  from run_wellFormed [OF s1(2)] obtain s2
    where s2: "run lc es2 s1 = Inr s2" "score s1 \<le> score s2" by blast
  from s1 s2 show "\<exists>s1 s2. run lc es1 s = Inr s1 \<and> run lc (es1 @ es2) s = Inr s2 \<and>
            score s \<le> score s1 \<and> score s1 \<le> score s2"
    by (simp add: run_append)
next
  from handleTimeOut_total [OF assms] obtain s' where s': "handleTimeOut s = Inr s'" by blast
  with handleTimeOut_frame [OF s'] show "\<exists>s'. handleTimeOut s = Inr s' \<and> score s' = score s"
    by simp
next
  assume wrong: "\<forall>qs. currentQuestion s = Some qs \<longrightarrow>
             lc (trim (answerInput s)) \<noteq>
             lc (trim (answer (qs ! currentQuestionIndex s)))"
  from handleSubmitAnswer_total [OF assms] obtain s' where s': "handleSubmitAnswer lc s = Inr s'"
    by blast
  with wrong have "score s' = score s"
    by (auto simp: handleSubmitAnswer_def Let_def split: option.splits if_splits)
  with s' show "\<exists>s'. handleSubmitAnswer lc s = Inr s' \<and> score s' = score s" by simp
qed

theorem score_never_decreases_witness:
  "wellFormed firstGame \<and>
   (\<exists>s1 s2. run asciiLowerCase [Change (ascii ''x''), Submit, Elapse] firstGame = Inr s1 \<and>
      run asciiLowerCase
        ([Change (ascii ''x''), Submit, Elapse] @ [Change [44284, 51088], Tick, Submit, Elapse])
        firstGame = Inr s2 \<and>
      score firstGame \<le> score s1 \<and> score s1 \<le> score s2)"
  using score_never_decreases [OF firstGame_wellFormed, of asciiLowerCase
      "[Change (ascii ''x''), Submit, Elapse]" "[Change [44284, 51088], Tick, Submit, Elapse]"]
    firstGame_wellFormed
  by blast

section \<open>Time-out\<close>




section \<open>Advancing to the next question\<close>

text \<open>
  C5, as the code has it. A call of \<open>handleNextQuestion\<close> computes the next index from the
  index it holds. While that is below \<open>MAX_QUESTIONS\<close> it stores it, resets \<open>timeLeft\<close> to
  \<open>TIMER_START\<close>, clears the input buffer and leaves the phase alone. Otherwise it leaves
  the stored index unchanged and runs \<open>handleGameEnd\<close>, which moves to the \<open>Result\<close>
  phase. From a game at index \<open>0\<close>, the first \<open>MAX_QUESTIONS - 1\<close> calls stay in \<open>Playing\<close>
  with the index counting up, and call number \<open>MAX_QUESTIONS\<close> reaches \<open>Result\<close> with the
  index still \<open>MAX_QUESTIONS - 1\<close>.
\<close>

theorem advance_increments_until_last:
  "(c_index c + 1 < MAX_QUESTIONS \<longrightarrow>
      handleNextQuestion c s =
        s\<lparr>currentQuestionIndex := c_index c + 1, timeLeft := TIMER_START, answerInput := []\<rparr> \<and>
      phase (handleNextQuestion c s) = phase s) \<and>
   (\<not> c_index c + 1 < MAX_QUESTIONS \<longrightarrow>
      handleNextQuestion c s = handleGameEnd c s \<and>
      phase (handleNextQuestion c s) = Result \<and>
      currentQuestionIndex (handleNextQuestion c s) = currentQuestionIndex s) \<and>
   (phase s = Playing \<and> currentQuestionIndex s = 0 \<longrightarrow>
      (\<forall>k<MAX_QUESTIONS. phase ((advance ^^ k) s) = Playing \<and>
          currentQuestionIndex ((advance ^^ k) s) = k) \<and>
      phase ((advance ^^ MAX_QUESTIONS) s) = Result \<and>
      currentQuestionIndex ((advance ^^ MAX_QUESTIONS) s) = MAX_QUESTIONS - 1)"
proof (intro conjI impI allI)
  assume "c_index c + 1 < MAX_QUESTIONS"
  then show "handleNextQuestion c s =
        s\<lparr>currentQuestionIndex := c_index c + 1, timeLeft := TIMER_START, answerInput := []\<rparr>"
    and "phase (handleNextQuestion c s) = phase s"
    by (simp_all add: handleNextQuestion_def Let_def)
next
  assume "\<not> c_index c + 1 < MAX_QUESTIONS"
  then show "handleNextQuestion c s = handleGameEnd c s"
    and "phase (handleNextQuestion c s) = Result"
    and "currentQuestionIndex (handleNextQuestion c s) = currentQuestionIndex s"
    by (simp_all add: handleNextQuestion_def handleGameEnd_frame Let_def)
next
  fix k
  assume "phase s = Playing \<and> currentQuestionIndex s = 0" and "k < MAX_QUESTIONS"
  then show "phase ((advance ^^ k) s) = Playing" and "currentQuestionIndex ((advance ^^ k) s) = k"
    using advance_before_last [of s k] by simp_all
next
  assume a: "phase s = Playing \<and> currentQuestionIndex s = 0"
  have e: "(advance ^^ MAX_QUESTIONS) s = advance ((advance ^^ 4) s)"
    by (simp add: MAX_QUESTIONS_def eval_nat_numeral)
  from a have "phase ((advance ^^ 4) s) = Playing \<and> currentQuestionIndex ((advance ^^ 4) s) = 4"
    using advance_before_last [of s 4] by (simp add: MAX_QUESTIONS_def)
  then have l: "advance ((advance ^^ 4) s) =
      handleGameEnd (closure_of ((advance ^^ 4) s)) ((advance ^^ 4) s)"
    and i: "currentQuestionIndex ((advance ^^ 4) s) = MAX_QUESTIONS - 1"
    by (simp_all add: advance_last MAX_QUESTIONS_def)
  show "phase ((advance ^^ MAX_QUESTIONS) s) = Result"
    and "currentQuestionIndex ((advance ^^ MAX_QUESTIONS) s) = MAX_QUESTIONS - 1"
    unfolding e l by (simp_all add: handleGameEnd_frame i)
qed

theorem advance_increments_until_last_witness:
  "phase ((advance ^^ 4) firstGame) = Playing \<and>
   currentQuestionIndex ((advance ^^ 4) firstGame) = 4 \<and>
   phase ((advance ^^ 5) firstGame) = Result \<and>
   currentQuestionIndex ((advance ^^ 5) firstGame) = 4"
proof -
  have a: "phase firstGame = Playing \<and> currentQuestionIndex firstGame = 0"
    by (simp add: firstGame_simps)
  from advance_increments_until_last [of "closure_of firstGame" firstGame] a
  have b: "\<forall>k<MAX_QUESTIONS. phase ((advance ^^ k) firstGame) = Playing \<and>
          currentQuestionIndex ((advance ^^ k) firstGame) = k"
    and c: "phase ((advance ^^ MAX_QUESTIONS) firstGame) = Result \<and>
      currentQuestionIndex ((advance ^^ MAX_QUESTIONS) firstGame) = MAX_QUESTIONS - 1"
    by blast+
  from b [rule_format, of 4] c show ?thesis by (simp add: MAX_QUESTIONS_def)
qed

text \<open>
  Against C5 as stated (every call increments the index): the call on the last question
  leaves the index at \<open>4\<close>.
\<close>

theorem final_advance_keeps_index:
  "currentQuestionIndex (firstGame\<lparr>currentQuestionIndex := 4\<rparr>) = 4 \<and>
   currentQuestionIndex (advance (firstGame\<lparr>currentQuestionIndex := 4\<rparr>)) = 4 \<and>
   phase (advance (firstGame\<lparr>currentQuestionIndex := 4\<rparr>)) = Result"
  by (simp add: advance_last handleGameEnd_frame MAX_QUESTIONS_def)

section \<open>Session end\<close>

text \<open>
  \<open>handleGameEnd\<close> on a closure that is the one of the state it runs in: it moves to the
  \<open>Result\<close> phase, sets the local high score to the score and the new-high-score flag
  when the score is strictly greater than the stored high score, with one write of that
  score when the store handle and a non-empty user id are there, and changes none of the
  three otherwise.
\<close>

lemma handleGameEnd_current:
  "(\<not> currentQuestionIndex s + 1 < MAX_QUESTIONS \<longrightarrow>
      advance s = handleGameEnd (closure_of s) s) \<and>
   phase (handleGameEnd (closure_of s) s) = Result \<and>
   (highScore s < score s \<longrightarrow>
      highScore (handleGameEnd (closure_of s) s) = score s \<and>
      isNewHighScore (handleGameEnd (closure_of s) s) \<and>
      updates (handleGameEnd (closure_of s) s) =
        (case userId s of
           None \<Rightarrow> updates s
         | Some uid \<Rightarrow> if db s \<and> uid \<noteq> [] then updates s @ [(uid, score s)] else updates s)) \<and>
   (score s \<le> highScore s \<longrightarrow>
      updates (handleGameEnd (closure_of s) s) = updates s \<and>
      isNewHighScore (handleGameEnd (closure_of s) s) = isNewHighScore s \<and>
      highScore (handleGameEnd (closure_of s) s) = highScore s)"
  by (simp add: advance_last handleGameEnd_def closure_of_def Let_def split: option.splits)

text \<open>
  A last question that is missed, or that times out, ends the session on the closure of
  the state it was missed in: the score that \<open>handleGameEnd\<close> compares is the final one.
\<close>

lemma last_question_missed:
  assumes "phase s = Playing" and "fb_text (feedback s) = []" and "timeouts s = []"
    and "currentQuestion s = Some qs" and "currentQuestionIndex s < length qs"
    and "\<not> currentQuestionIndex s + 1 < MAX_QUESTIONS"
    and "lc (trim (answerInput s)) \<noteq> lc (trim (answer (qs ! currentQuestionIndex s)))"
  shows "run lc [Submit, Elapse] s =
     Inr (handleGameEnd (closure_of s)
       (s\<lparr>answerInput := [], timeouts := [], feedback := noFeedback, showAnswer := False,
          correctAnswerText := [], lastWrongInput := []\<rparr>))"
  using assms
  by (simp add: step_def handleSubmitAnswer_def timerEffect_def handleNextQuestion_def
      closure_of_def Let_def handleGameEnd_frame WRONG_TEXT_def)

lemma last_question_timed_out:
  assumes "phase s = Playing" and "fb_text (feedback s) = []" and "timeouts s = []"
    and "currentQuestion s = Some qs" and "currentQuestionIndex s < length qs"
    and "\<not> currentQuestionIndex s + 1 < MAX_QUESTIONS" and "timeLeft s = 1"
  shows "run lc [Tick, Elapse] s =
     Inr (handleGameEnd (closure_of s)
       (s\<lparr>timeLeft := 0, timeouts := [], feedback := noFeedback, showAnswer := False,
          correctAnswerText := [], lastWrongInput := []\<rparr>))"
  using assms
  by (simp add: step_def timerArmed_def timerEffect_def handleTimeOut_def handleNextQuestion_def
      closure_of_def Let_def handleGameEnd_frame TIMEOUT_TEXT_def)

text \<open>
  C3 at a session whose last answer is right. The timeout set by a correct answer holds
  the closure of the state before the points were added, and \<open>handleGameEnd\<close> compares
  that score. Five right answers end the session with \<open>100\<close> points, while the high score
  stored and written is \<open>80\<close>. A right last answer worth \<open>20\<close> points against a stored high
  score of \<open>5\<close> ends the session with \<open>20\<close> points and updates neither the high score, the
  flag nor the store. Both hold whatever the host's lower-casing.
\<close>

theorem stale_score_at_session_end:
  "(\<exists>s'. run lc allRight firstGame = Inr s' \<and> phase s' = Result \<and> score s' = 100 \<and>
      highScore s' = 80 \<and> isNewHighScore s' \<and> updates s' = [(ascii ''uid1'', 80)]) \<and>
   (\<exists>s'. run lc [Change [51228, 51452, 46020], Submit, Elapse] (lastQuestion\<lparr>highScore := 5\<rparr>) =
        Inr s' \<and>
      phase s' = Result \<and> score s' = 20 \<and> highScore s' = 5 \<and> \<not> isNewHighScore s' \<and>
      updates s' = [])"
  by (simp add: allRight_def lastQuestion_def firstGame_def startGame_def readyApp_def
      initialApp_def noFeedback_def MAX_QUESTIONS_def TIMER_START_def Let_def step_def
      timerEffect_def handleSubmitAnswer_def CHOSUNG_QUESTIONS_def mkQuestion_def closure_of_def
      timerArmed_def handleNextQuestion_def handleGameEnd_def correctText_def ascii_def)

text \<open>The final score and the stored high score of that session differ.\<close>

theorem stale_score_instance:
  "\<exists>s'. run asciiLowerCase allRight firstGame = Inr s' \<and> highScore s' < score s'"
  using stale_score_at_session_end [of asciiLowerCase] by auto

section \<open>The leaderboard\<close>

lemma set_insertBy: "set (insertBy cmp x ys) = insert x (set ys)"
  by (induction ys) auto

lemma length_insertBy: "length (insertBy cmp x ys) = Suc (length ys)"
  by (induction ys) auto

lemma length_stableSort: "length (stableSort cmp xs) = length xs"
  by (induction xs) (simp_all add: stableSort_def length_insertBy)

lemma sorted_insertBy:
  "sorted_wrt descending ys \<Longrightarrow> sorted_wrt descending (insertBy byHighScoreDesc x ys)"
  by (induction ys) (auto simp: set_insertBy byHighScoreDesc_def)

lemma sorted_stableSort: "sorted_wrt descending (stableSort byHighScoreDesc xs)"
  by (induction xs) (simp_all add: stableSort_def sorted_insertBy)

lemma filter_insertBy:
  "sorted_wrt descending ys \<Longrightarrow>
   filter (\<lambda>e. e_highScore e = k) (insertBy byHighScoreDesc x ys) =
     (if e_highScore x = k then x # filter (\<lambda>e. e_highScore e = k) ys
      else filter (\<lambda>e. e_highScore e = k) ys)"
proof (induction ys)
  case Nil
  then show ?case by simp
next
  case (Cons y ys)
  show ?case
  proof (cases "byHighScoreDesc x y \<le> 0")
    case True
    then show ?thesis by simp
  next
    case False
    then have lt: "e_highScore x < e_highScore y" by (simp add: byHighScoreDesc_def)
    from Cons.prems have "\<forall>z\<in>set ys. e_highScore z \<le> e_highScore y" and "sorted_wrt descending ys"
      by simp_all
    with Cons.IH False lt show ?thesis by auto
  qed
qed

lemma stableSort_stable:
  "filter (\<lambda>e. e_highScore e = k) (stableSort byHighScoreDesc xs) =
     filter (\<lambda>e. e_highScore e = k) xs"
proof (induction xs)
  case Nil
  then show ?case by (simp add: stableSort_def)
next
  case (Cons x xs)
  have "stableSort byHighScoreDesc (x # xs) = insertBy byHighScoreDesc x (stableSort byHighScoreDesc xs)"
    by (simp add: stableSort_def)
  with Cons show ?case by (simp add: filter_insertBy sorted_stableSort)
qed

lemma map_reRank_enumerate:
  "map (e_rank \<circ> reRank) (enumerate n xs) = [Suc n..<Suc n + length xs]"
  "map (e_highScore \<circ> reRank) (enumerate n xs) = map e_highScore xs"
  by (induction xs arbitrary: n) (simp_all add: reRank_def upt_rec)

lemma ranking_length: "length (ranking docs) = length docs"
  by (simp add: ranking_def Let_def length_stableSort)

lemma ranking_ranks: "map e_rank (ranking docs) = [1..<Suc (length docs)]"
  using map_reRank_enumerate(1) [of 0 "stableSort byHighScoreDesc (map pushEntry (enumerate 0 docs))"]
  by (simp add: ranking_def Let_def length_stableSort)

lemma ranking_scores:
  "map e_highScore (ranking docs) =
     map e_highScore (stableSort byHighScoreDesc (map pushEntry (enumerate 0 docs)))"
  using map_reRank_enumerate(2) [of 0 "stableSort byHighScoreDesc (map pushEntry (enumerate 0 docs))"]
  by (simp add: ranking_def Let_def)

lemma ranking_sorted: "sorted_wrt (\<ge>) (map e_highScore (ranking docs))"
proof -
  have "sorted_wrt descending (stableSort byHighScoreDesc (map pushEntry (enumerate 0 docs)))"
    by (rule sorted_stableSort)
  then show ?thesis
    unfolding ranking_scores by (simp add: sorted_wrt_map)
qed

lemma ranking_of_snapshot:
  "userId s = Some uid \<Longrightarrow> db s \<Longrightarrow> uid \<noteq> [] \<Longrightarrow> isAuthReady s \<Longrightarrow>
     rankingData (onSnapshot docs s) = ranking docs"
  by (simp add: onSnapshot_def Let_def)

text \<open>
  C9 at a snapshot without the player. The ranking list is a function of the snapshot
  alone, sorted by descending high score, stable on ties and ranked \<open>1\<close> to \<open>n\<close> (the lemmas
  above). The player's own rank is not: \<^verbatim>\<open>setMyRank\<close> is called only for an entry of the
  player's, so a snapshot without the player leaves the rank of an earlier snapshot in
  place, and the same snapshot gives no rank or rank \<open>2\<close> depending on what came before.
\<close>

theorem own_rank_kept_when_absent:
  "myRank (onSnapshot [rival] readyApp) = None \<and>
   myRank (onSnapshot [rival, player] readyApp) = Some (2, 50) \<and>
   myRank (onSnapshot [rival] (onSnapshot [rival, player] readyApp)) = Some (2, 50) \<and>
   map e_userId (rankingData (onSnapshot [rival] (onSnapshot [rival, player] readyApp))) =
     [ascii ''uid2'']"
  by (simp add: onSnapshot_def readyApp_def initialApp_def ranking_def stableSort_def
      pushEntry_def reRank_def byHighScoreDesc_def player_def rival_def ascii_def Let_def)

text \<open>So one and the same snapshot yields two different own ranks.\<close>

theorem own_rank_depends_on_history:
  "myRank (onSnapshot [rival] (onSnapshot [rival, player] readyApp)) \<noteq>
   myRank (onSnapshot [rival] readyApp)"
  using own_rank_kept_when_absent by simp

section \<open>Round selection\<close>

lemma bank_distinct: "distinct CHOSUNG_QUESTIONS"
  by (simp add: CHOSUNG_QUESTIONS_def mkQuestion_def)

lemma bank_length: "length CHOSUNG_QUESTIONS = 10"
  by (simp add: CHOSUNG_QUESTIONS_def)

lemma mset_sink: "mset (fst (sink os x ys)) = add_mset x (mset ys)"
  by (induction os x ys rule: sink.induct) (auto split: prod.splits)

lemma mset_insertionSort: "mset (insertionSort os ys xs) = mset ys + mset xs"
proof (induction xs arbitrary: os ys)
  case Nil
  then show ?case by simp
next
  case (Cons x xs)
  obtain ys' os' where s: "sink os x ys = (ys', os')" by (cases "sink os x ys")
  then have "mset ys' = add_mset x (mset ys)"
    using mset_sink [of os x ys] by simp
  with Cons.IH [of os' ys'] s show ?case by simp
qed

lemma mset_insertionHost: "mset (insertionHost m rs xs) = mset xs"
  by (simp add: insertionHost_def mset_insertionSort)

lemma insertionSort_stays:
  "ys \<noteq> [] \<Longrightarrow> length xs \<le> length os \<Longrightarrow> \<forall>order\<in>set (take (length xs) os). order \<le> 0 \<Longrightarrow>
     insertionSort os ys xs = rev ys @ xs"
proof (induction xs arbitrary: os ys)
  case Nil
  then show ?case by simp
next
  case (Cons x xs)
  from Cons.prems(2) obtain order os' where os: "os = order # os'" by (cases os) auto
  from Cons.prems(1) obtain y ys' where ys: "ys = y # ys'" by (cases ys) auto
  from Cons.prems(3) os have "order \<le> 0" and rest: "\<forall>order\<in>set (take (length xs) os'). order \<le> 0"
    by simp_all
  then have "sink os x ys = (x # ys, os')"
    by (simp add: os ys)
  moreover have "insertionSort os' (x # ys) xs = rev (x # ys) @ xs"
    using Cons.prems(2) os rest by (intro Cons.IH) simp_all
  ultimately show ?case by simp
qed

lemma randomOrder_nonpos:
  assumes "2 * r \<le> 2 ^ m"
  shows "randomOrder m r \<le> 0"
proof -
  from assms have "int (2 * r) \<le> int (2 ^ m)"
    by (simp only: of_nat_le_iff)
  then show ?thesis
    unfolding randomOrder_def by linarith
qed

lemma insertionHost_stays:
  assumes "length rs = k" and "9 \<le> k" and "\<forall>r\<in>set (take 9 rs). 2 * r \<le> 2 ^ m"
  shows "insertionHost m rs CHOSUNG_QUESTIONS = CHOSUNG_QUESTIONS"
proof -
  have "\<exists>x xs. CHOSUNG_QUESTIONS = x # xs \<and> length xs = 9"
    by (simp add: CHOSUNG_QUESTIONS_def)
  then obtain x xs where b: "CHOSUNG_QUESTIONS = x # xs" and l: "length xs = 9"
    by blast
  have "\<forall>order\<in>set (take 9 (map (randomOrder m) rs)). order \<le> 0"
    using assms(3) by (auto simp: take_map randomOrder_nonpos)
  then have "insertionSort (map (randomOrder m) rs) [x] xs = rev [x] @ xs"
    using assms(1,2) l by (intro insertionSort_stays) simp_all
  then show ?thesis
    by (simp add: insertionHost_def b)
qed

lemma set_outcomes: "set (outcomes m k) = {rs. set rs \<subseteq> {..<2 ^ m} \<and> length rs = k}"
  by (auto simp: outcomes_def set_n_lists)

lemma distinct_outcomes: "distinct (outcomes m k)"
  by (simp add: outcomes_def distinct_n_lists)

lemma length_outcomes: "length (outcomes m k) = 2 ^ (m * k)"
  by (simp add: outcomes_def length_n_lists power_mult)

lemma card_quiet_outcomes:
  assumes "9 \<le> k" and "B \<subseteq> A" and "finite A"
  shows "card {rs. set rs \<subseteq> A \<and> length rs = k \<and> set (take 9 rs) \<subseteq> B} = card B ^ 9 * card A ^ (k - 9)"
proof -
  let ?U = "{u. set u \<subseteq> B \<and> length u = 9}"
  let ?V = "{v. set v \<subseteq> A \<and> length v = k - 9}"
  let ?S = "{rs. set rs \<subseteq> A \<and> length rs = k \<and> set (take 9 rs) \<subseteq> B}"
  have fB: "finite B" using assms(2,3) by (rule finite_subset)
  have "?S = (\<lambda>(u, v). u @ v) ` (?U \<times> ?V)"
  proof (intro set_eqI iffI)
    fix rs assume "rs \<in> ?S"
    then have "take 9 rs \<in> ?U" "drop 9 rs \<in> ?V"
      using assms(1) set_drop_subset [of 9 rs] by auto
    then have "(take 9 rs, drop 9 rs) \<in> ?U \<times> ?V" by simp
    moreover have "rs = (\<lambda>(u, v). u @ v) (take 9 rs, drop 9 rs)" by simp
    ultimately show "rs \<in> (\<lambda>(u, v). u @ v) ` (?U \<times> ?V)" by (rule rev_image_eqI)
  next
    fix rs assume "rs \<in> (\<lambda>(u, v). u @ v) ` (?U \<times> ?V)"
    then obtain u v where "rs = u @ v" "u \<in> ?U" "v \<in> ?V" by auto
    then show "rs \<in> ?S" using assms(1,2) by auto
  qed
  moreover have "inj_on (\<lambda>(u, v). u @ v) (?U \<times> ?V)"
    by (auto simp: inj_on_def)
  ultimately have "card ?S = card (?U \<times> ?V)"
    by (simp add: card_image)
  also have "\<dots> = card B ^ 9 * card A ^ (k - 9)"
    using fB assms(3) by (simp add: card_cartesian_product card_lists_length_eq)
  finally show ?thesis .
qed

lemma length_filter_mono:
  "(\<And>x. x \<in> set xs \<Longrightarrow> Q x \<Longrightarrow> P x) \<Longrightarrow> length (filter Q xs) \<le> length (filter P xs)"
  by (induction xs) auto

text \<open>
  A host that leaves the bank alone whenever its first nine draws all fall in a set that
  holds at least half of the values of a draw returns the bank in its own order in at
  least one outcome of 512. Insertion sort is such a host, on draws that make the
  comparator's result not positive; so is any host that first checks whether the array
  is in order already, whichever sign it reads as in order.
\<close>

lemma kept_order_chances:
  assumes "1 \<le> m" and "9 \<le> k" and "B \<subseteq> {..<2 ^ m}" and "2 ^ (m - 1) \<le> card B"
    and keep: "\<And>rs. length rs = k \<Longrightarrow> set (take 9 rs) \<subseteq> B \<Longrightarrow>
      arraySort rs CHOSUNG_QUESTIONS = CHOSUNG_QUESTIONS"
  shows "length (outcomes m k) \<le> 512 * chances arraySort m k CHOSUNG_QUESTIONS"
proof -
  let ?A = "{..<(2::nat) ^ m}"
  let ?Q = "\<lambda>rs. set (take 9 rs) \<subseteq> B"
  have half: "2 ^ m = 2 * (2::nat) ^ (m - 1)"
    using assms(1) by (cases m) simp_all
  have "length (filter ?Q (outcomes m k)) \<le> chances arraySort m k CHOSUNG_QUESTIONS"
    unfolding chances_def
  proof (rule length_filter_mono)
    fix rs assume "rs \<in> set (outcomes m k)" and "?Q rs"
    then have "length rs = k" and "set (take 9 rs) \<subseteq> B"
      by (auto simp: set_outcomes)
    then show "arraySort rs CHOSUNG_QUESTIONS = CHOSUNG_QUESTIONS"
      by (rule keep)
  qed
  moreover have "length (filter ?Q (outcomes m k)) = card {rs \<in> set (outcomes m k). ?Q rs}"
    using distinct_outcomes [of m k] by (simp add: distinct_length_filter Int_def conj_commute)
  moreover have "{rs \<in> set (outcomes m k). ?Q rs} =
      {rs. set rs \<subseteq> ?A \<and> length rs = k \<and> set (take 9 rs) \<subseteq> B}"
    by (auto simp: set_outcomes)
  moreover have "card {rs. set rs \<subseteq> ?A \<and> length rs = k \<and> set (take 9 rs) \<subseteq> B} =
      card B ^ 9 * card ?A ^ (k - 9)"
    using assms(2,3) by (intro card_quiet_outcomes) simp_all
  ultimately have low: "card B ^ 9 * (2 ^ m) ^ (k - 9) \<le> chances arraySort m k CHOSUNG_QUESTIONS"
    by simp
  have "length (outcomes m k) = (2 ^ m) ^ 9 * (2 ^ m) ^ (k - 9)"
    using assms(2) by (simp add: length_outcomes power_mult flip: power_add)
  also have "(2 ^ m) ^ 9 = 512 * ((2::nat) ^ (m - 1)) ^ 9"
    by (subst half) (simp add: power_mult_distrib)
  also have "512 * ((2::nat) ^ (m - 1)) ^ 9 * (2 ^ m) ^ (k - 9) \<le>
      512 * (card B ^ 9 * (2 ^ m) ^ (k - 9))"
    using assms(4) by (simp add: power_mono)
  finally show ?thesis using low by simp
qed

lemma chances_bank_order:
  assumes "1 \<le> m" and "9 \<le> k"
  shows "length (outcomes m k) \<le> 512 * chances (insertionHost m) m k CHOSUNG_QUESTIONS"
proof (rule kept_order_chances [where B = "{r. 2 * r \<le> (2::nat) ^ m} \<inter> {..<2 ^ m}"])
  show "1 \<le> m" and "9 \<le> k" by (rule assms)+
  show "{r. 2 * r \<le> (2::nat) ^ m} \<inter> {..<2 ^ m} \<subseteq> {..<2 ^ m}" by simp
  have half: "2 ^ m = 2 * (2::nat) ^ (m - 1)"
    using assms(1) by (cases m) simp_all
  have "{..<(2::nat) ^ (m - 1)} \<subseteq> {r. 2 * r \<le> (2::nat) ^ m} \<inter> {..<2 ^ m}"
    using half by auto
  then have "card {..<(2::nat) ^ (m - 1)} \<le> card ({r. 2 * r \<le> (2::nat) ^ m} \<inter> {..<2 ^ m})"
    by (intro card_mono) simp_all
  then show "2 ^ (m - 1) \<le> card ({r. 2 * r \<le> (2::nat) ^ m} \<inter> {..<2 ^ m})" by simp
  fix rs :: "nat list"
  assume "length rs = k" and "set (take 9 rs) \<subseteq> {r. 2 * r \<le> (2::nat) ^ m} \<inter> {..<2 ^ m}"
  then show "insertionHost m rs CHOSUNG_QUESTIONS = CHOSUNG_QUESTIONS"
    using assms(2) by (intro insertionHost_stays) auto
qed

lemma moved_round:
  "map answer (take 5 (insertionHost 2 [3, 0, 3, 3] CHOSUNG_QUESTIONS)) =
     [[44284, 51088], [49828, 47560, 53944, 54256], [50504, 45397, 54616, 49464, 50836],
      [47805, 44396], [51228, 51452, 46020]]"
  by (simp add: insertionHost_def randomOrder_def CHOSUNG_QUESTIONS_def mkQuestion_def)

lemma orders_of_bank:
  "{p. mset p = mset CHOSUNG_QUESTIONS} =
   {p. length p = 10 \<and> distinct p \<and> set p \<subseteq> set CHOSUNG_QUESTIONS}"
proof (intro set_eqI iffI; clarify)
  fix p assume "mset p = mset CHOSUNG_QUESTIONS"
  then show "length p = 10 \<and> distinct p \<and> set p \<subseteq> set CHOSUNG_QUESTIONS"
    using bank_distinct bank_length mset_eq_length mset_eq_setD mset_eq_imp_distinct_iff
    by (metis order_refl)
next
  fix p assume p: "length p = 10" "distinct p" "set p \<subseteq> set CHOSUNG_QUESTIONS"
  have "card (set p) = card (set CHOSUNG_QUESTIONS)"
    using p bank_distinct bank_length by (simp add: distinct_card)
  with p(3) have "set p = set CHOSUNG_QUESTIONS"
    by (simp add: card_subset_eq)
  with p(2) bank_distinct show "mset p = mset CHOSUNG_QUESTIONS"
    by (simp add: set_eq_iff_mset_eq_distinct)
qed

lemma card_orders_of_bank: "card {p. mset p = mset CHOSUNG_QUESTIONS} = fact 10"
proof -
  have "card (set CHOSUNG_QUESTIONS) = 10"
    using bank_distinct bank_length by (simp add: distinct_card)
  then have "card {p. length p = 10 \<and> distinct p \<and> set p \<subseteq> set CHOSUNG_QUESTIONS} = \<Prod>{1..10::nat}"
    using card_lists_distinct_length_eq [of "set CHOSUNG_QUESTIONS" 10] by simp
  then show ?thesis
    by (simp add: orders_of_bank fact_prod)
qed

lemma finite_orders_of_bank: "finite {p. mset p = mset CHOSUNG_QUESTIONS}"
  using card_orders_of_bank by (metis card.infinite fact_nonzero)

lemma chances_card:
  "chances arraySort m k p =
     card {rs \<in> set (outcomes m k). arraySort rs CHOSUNG_QUESTIONS = p}"
proof -
  have "{rs. arraySort rs CHOSUNG_QUESTIONS = p} \<inter> set (outcomes m k) =
      {rs \<in> set (outcomes m k). arraySort rs CHOSUNG_QUESTIONS = p}"
    by auto
  then show ?thesis
    by (simp add: chances_def distinct_length_filter distinct_outcomes)
qed

lemma chances_sum:
  assumes "\<forall>rs. mset (arraySort rs CHOSUNG_QUESTIONS) = mset CHOSUNG_QUESTIONS"
  shows "(\<Sum>p\<in>{p. mset p = mset CHOSUNG_QUESTIONS}. chances arraySort m k p) =
     length (outcomes m k)"
proof -
  let ?P = "{p. mset p = mset CHOSUNG_QUESTIONS}"
  let ?S = "set (outcomes m k)"
  let ?f = "\<lambda>rs. arraySort rs CHOSUNG_QUESTIONS"
  have "(\<Sum>p\<in>?P. \<Sum>rs\<in>{rs \<in> ?S. ?f rs = p}. (1::nat)) = (\<Sum>rs\<in>?S. 1)"
    using assms by (intro sum.group finite_orders_of_bank) auto
  then have "(\<Sum>p\<in>?P. card {rs \<in> ?S. ?f rs = p}) = card ?S"
    by simp
  also have "card ?S = length (outcomes m k)"
    using distinct_outcomes [of m k] by (simp add: distinct_card)
  finally show ?thesis by (simp add: chances_card)
qed

lemma orders_not_equally_likely:
  assumes "1 \<le> m" and "9 \<le> k"
  shows "fact 10 * chances (insertionHost m) m k CHOSUNG_QUESTIONS \<noteq> length (outcomes m k)"
    and "\<exists>p. mset p = mset CHOSUNG_QUESTIONS \<and>
           chances (insertionHost m) m k p \<noteq> chances (insertionHost m) m k CHOSUNG_QUESTIONS"
proof -
  let ?c = "chances (insertionHost m) m k CHOSUNG_QUESTIONS"
  let ?n = "length (outcomes m k)"
  let ?P = "{p. mset p = mset CHOSUNG_QUESTIONS}"
  have pos: "0 < ?n" by (simp add: length_outcomes)
  have le: "?n \<le> 512 * ?c" using assms by (rule chances_bank_order)
  have big: "(512::nat) < fact 10" by (simp add: fact_numeral)
  from pos le have "0 < ?c" by (cases "?c = 0") simp_all
  with big have "512 * ?c < fact 10 * ?c" by simp
  with le have "?n < fact 10 * ?c" by (rule le_less_trans)
  then have "?n \<noteq> fact 10 * ?c" by (rule less_imp_neq)
  then show ne: "fact 10 * ?c \<noteq> ?n" by (rule not_sym)
  show "\<exists>p. mset p = mset CHOSUNG_QUESTIONS \<and> chances (insertionHost m) m k p \<noteq> ?c"
  proof (rule ccontr)
    assume "\<not> (\<exists>p. mset p = mset CHOSUNG_QUESTIONS \<and> chances (insertionHost m) m k p \<noteq> ?c)"
    then have same: "chances (insertionHost m) m k p = ?c" if "p \<in> ?P" for p
      using that by blast
    have "(\<Sum>p\<in>?P. chances (insertionHost m) m k p) = (\<Sum>p\<in>?P. ?c)"
      by (rule sum.cong) (simp_all only: same)
    also have "\<dots> = fact 10 * ?c"
      by (simp add: card_orders_of_bank)
    finally have s1: "(\<Sum>p\<in>?P. chances (insertionHost m) m k p) = fact 10 * ?c" .
    have s2: "(\<Sum>p\<in>?P. chances (insertionHost m) m k p) = ?n"
      by (rule chances_sum) (simp add: mset_insertionHost)
    from s1 [symmetric] s2 have "fact 10 * ?c = ?n" by (rule trans)
    with ne show False by (rule notE)
  qed
qed

lemma round_chances:
  "chances arraySort m k CHOSUNG_QUESTIONS \<le>
     roundChances arraySort m k (take MAX_QUESTIONS CHOSUNG_QUESTIONS)"
  unfolding chances_def roundChances_def
  by (rule length_filter_mono) (simp add: startGame_def readyApp_def initialApp_def Let_def)

lemma first_round_too_likely:
  assumes "1 \<le> m" and "9 \<le> k"
  shows "length (outcomes m k) \<le>
      512 * roundChances (insertionHost m) m k (take MAX_QUESTIONS CHOSUNG_QUESTIONS)"
    and "30240 * roundChances (insertionHost m) m k (take MAX_QUESTIONS CHOSUNG_QUESTIONS) \<noteq>
      length (outcomes m k)"
proof -
  let ?c = "roundChances (insertionHost m) m k (take MAX_QUESTIONS CHOSUNG_QUESTIONS)"
  let ?n = "length (outcomes m k)"
  have "?n \<le> 512 * chances (insertionHost m) m k CHOSUNG_QUESTIONS"
    using assms by (rule chances_bank_order)
  also have "\<dots> \<le> 512 * ?c"
    using round_chances [of "insertionHost m" m k] by simp
  finally show le: "?n \<le> 512 * ?c" .
  have pos: "0 < ?n" by (simp add: length_outcomes)
  from pos le have "0 < ?c" by (cases "?c = 0") simp_all
  then have "512 * ?c < 30240 * ?c" by simp
  with le have "?n < 30240 * ?c" by (rule le_less_trans)
  then have "?n \<noteq> 30240 * ?c" by (rule less_imp_neq)
  then show "30240 * ?c \<noteq> ?n" by (rule not_sym)
qed

text \<open>
  Against C4 as stated (every order of the bank equally likely). On a host that sorts
  ten elements by insertion, with 53 random bits to a draw and the 45 draws ten elements
  can need: the bank comes out in its own order whenever the first nine comparisons say
  not to move, which is at least one outcome in 512, where a uniform shuffle gives each
  of the \<open>10!\<close> orders one in 3628800. So the count of the bank's own order is not the
  uniform share, and some other order of the bank has a different count. The round that
  \<open>startGame\<close> stores is then the first five questions of the bank in at least one game
  in 512, not in one of 30240.
\<close>

theorem bank_order_too_likely:
  "length (outcomes 53 45) \<le> 512 * chances (insertionHost 53) 53 45 CHOSUNG_QUESTIONS \<and>
   fact 10 * chances (insertionHost 53) 53 45 CHOSUNG_QUESTIONS \<noteq> length (outcomes 53 45) \<and>
   (\<exists>p. mset p = mset CHOSUNG_QUESTIONS \<and>
      chances (insertionHost 53) 53 45 p \<noteq> chances (insertionHost 53) 53 45 CHOSUNG_QUESTIONS) \<and>
   length (outcomes 53 45) \<le>
     512 * roundChances (insertionHost 53) 53 45 (take MAX_QUESTIONS CHOSUNG_QUESTIONS) \<and>
   30240 * roundChances (insertionHost 53) 53 45 (take MAX_QUESTIONS CHOSUNG_QUESTIONS) \<noteq>
     length (outcomes 53 45)"
proof (intro conjI)
  have m: "(1::nat) \<le> 53" and k: "(9::nat) \<le> 45" by simp_all
  show "length (outcomes 53 45) \<le> 512 * chances (insertionHost 53) 53 45 CHOSUNG_QUESTIONS"
    using m k by (rule chances_bank_order)
  show "fact 10 * chances (insertionHost 53) 53 45 CHOSUNG_QUESTIONS \<noteq> length (outcomes 53 45)"
    using m k by (rule orders_not_equally_likely(1))
  show "\<exists>p. mset p = mset CHOSUNG_QUESTIONS \<and>
      chances (insertionHost 53) 53 45 p \<noteq> chances (insertionHost 53) 53 45 CHOSUNG_QUESTIONS"
    using m k by (rule orders_not_equally_likely(2))
  show "length (outcomes 53 45) \<le>
      512 * roundChances (insertionHost 53) 53 45 (take MAX_QUESTIONS CHOSUNG_QUESTIONS)"
    using m k by (rule first_round_too_likely(1))
  show "30240 * roundChances (insertionHost 53) 53 45 (take MAX_QUESTIONS CHOSUNG_QUESTIONS) \<noteq>
      length (outcomes 53 45)"
    using m k by (rule first_round_too_likely(2))
qed

text \<open>
  C4, as the code has it. \<open>startGame\<close> sorts a copy of the bank with the random comparator
  and keeps the first \<open>MAX_QUESTIONS\<close> elements. Whenever the sort returns a rearrangement
  of the bank, the round has \<open>MAX_QUESTIONS\<close> questions, all different and all from the
  bank. The instance that follows is a round of the insertion-sorting host in which three
  of the draws moved a question.
\<close>

theorem round_is_distinct_selection:
  assumes "mset (arraySort rs CHOSUNG_QUESTIONS) = mset CHOSUNG_QUESTIONS"
    and "isAuthReady s"
  shows "\<exists>qs. currentQuestion (startGame arraySort rs s) = Some qs \<and>
           qs = take MAX_QUESTIONS (arraySort rs CHOSUNG_QUESTIONS) \<and>
           length qs = MAX_QUESTIONS \<and> distinct qs \<and> set qs \<subseteq> set CHOSUNG_QUESTIONS"
proof -
  let ?xs = "arraySort rs CHOSUNG_QUESTIONS"
  from assms(1) have "length ?xs = 10" "distinct ?xs" "set ?xs = set CHOSUNG_QUESTIONS"
    using bank_distinct bank_length mset_eq_length mset_eq_setD mset_eq_imp_distinct_iff
    by metis+
  then have "length (take MAX_QUESTIONS ?xs) = MAX_QUESTIONS" "distinct (take MAX_QUESTIONS ?xs)"
    "set (take MAX_QUESTIONS ?xs) \<subseteq> set CHOSUNG_QUESTIONS"
    using set_take_subset [of MAX_QUESTIONS ?xs] by (simp_all add: MAX_QUESTIONS_def)
  with assms(2) show ?thesis
    by (simp add: startGame_def Let_def)
qed

theorem round_is_distinct_selection_witness:
  "\<exists>qs. currentQuestion (startGame (insertionHost 2) [3, 0, 3, 3] readyApp) = Some qs \<and>
     qs = take 5 (insertionHost 2 [3, 0, 3, 3] CHOSUNG_QUESTIONS) \<and>
     length qs = 5 \<and> distinct qs \<and> set qs \<subseteq> set CHOSUNG_QUESTIONS"
proof -
  have "mset (insertionHost 2 [3, 0, 3, 3] CHOSUNG_QUESTIONS) = mset CHOSUNG_QUESTIONS"
    and "isAuthReady readyApp"
    by (simp_all add: mset_insertionHost readyApp_def)
  from round_is_distinct_selection [of "insertionHost 2" "[3, 0, 3, 3]" readyApp, OF this]
  show ?thesis by (simp add: MAX_QUESTIONS_def)
qed

end
